theory Spec2Isabelle
  imports Complex_Main
begin

section \<open>Python string primitives used by the scripts\<close>

text \<open>
  Text is a list of characters. A character is one code point below 256, and
  \<open>isspace\<close> is Python's \<^verbatim>\<open>str.isspace\<close> on those code points: tab, line feed,
  vertical tab, form feed, carriage return, the separators 28 to 31, space, NEL (133) and the
  no-break space (160). Code points from 256 on are outside the model.
\<close>

definition isspace :: "char \<Rightarrow> bool" where
  "isspace c = ((of_char c :: nat) \<in> {9, 10, 11, 12, 13, 28, 29, 30, 31, 32, 133, 160})"

definition isdigit :: "char \<Rightarrow> bool" where
  "isdigit c = (48 \<le> (of_char c :: nat) \<and> (of_char c :: nat) \<le> 57)"

text \<open>\<^verbatim>\<open>s.strip()\<close>: whitespace removed on both sides.\<close>

definition strip :: "string \<Rightarrow> string" where
  "strip s = rev (dropWhile isspace (rev (dropWhile isspace s)))"

text \<open>\<^verbatim>\<open>s.startswith(p)\<close>.\<close>

fun startswith :: "string \<Rightarrow> string \<Rightarrow> bool" where
  "startswith s [] = True"
| "startswith [] (p # ps) = False"
| "startswith (c # cs) (p # ps) = (c = p \<and> startswith cs ps)"

text \<open>\<^verbatim>\<open>sub in s\<close> for a substring \<open>sub\<close>.\<close>

fun contains :: "string \<Rightarrow> string \<Rightarrow> bool" where
  "contains [] sub = (sub = [])"
| "contains (c # cs) sub = (startswith (c # cs) sub \<or> contains cs sub)"

text \<open>
  \<^verbatim>\<open>s.replace(old, '')\<close> for a non-empty \<open>old\<close>: every occurrence found from
  left to right, without overlap, is removed.
\<close>

function replace_empty :: "string \<Rightarrow> string \<Rightarrow> string" where
  "replace_empty old [] = []"
| "replace_empty old (c # cs) =
     (if old \<noteq> [] \<and> startswith (c # cs) old
      then replace_empty old (drop (length old) (c # cs))
      else c # replace_empty old cs)"
  by pat_completeness auto
termination
  by (relation "measure (\<lambda>(old, s). length s)") auto

text \<open>\<^verbatim>\<open>s.split('\n')\<close>: always at least one piece.\<close>

fun split_lines :: "string \<Rightarrow> string list" where
  "split_lines [] = [[]]"
| "split_lines (c # cs) =
     (if c = CHR 0x0A then [] # split_lines cs
      else (case split_lines cs of [] \<Rightarrow> [[c]] | l # ls \<Rightarrow> (c # l) # ls))"

text \<open>\<^verbatim>\<open>s.split(':', 1)\<close>: one piece without a colon, two pieces otherwise.\<close>

definition split_colon :: "string \<Rightarrow> string list" where
  "split_colon s =
     (if CHR '':'' \<in> set s
      then [takeWhile (\<lambda>c. c \<noteq> CHR '':'') s, tl (dropWhile (\<lambda>c. c \<noteq> CHR '':'') s)]
      else [s])"

datatype py_error = ValueError | KeyError

text \<open>\<^verbatim>\<open>key, value = pieces\<close>: unpacking raises ValueError unless there are two pieces.\<close>

fun unpack2 :: "string list \<Rightarrow> py_error + (string \<times> string)" where
  "unpack2 [k, v] = Inr (k, v)"
| "unpack2 pieces = Inl ValueError"

subsection \<open>Numeric literals\<close>

text \<open>
  A digit part is a non-empty run of decimal digits in which single underscores may stand
  between two digits.
\<close>

fun digitpart :: "string \<Rightarrow> bool" where
  "digitpart [] = False"
| "digitpart [c] = isdigit c"
| "digitpart (c # d # r) =
     (isdigit c \<and> (if d = CHR ''_'' then digitpart r else digitpart (d # r)))"

definition digits_val :: "string \<Rightarrow> nat" where
  "digits_val d = foldl (\<lambda>a c. 10 * a + (of_char c - 48)) 0 (filter isdigit d)"

text \<open>An optional sign followed by a digit part.\<close>

definition signed_digits :: "string \<Rightarrow> int option" where
  "signed_digits t =
     (case t of
        [] \<Rightarrow> None
      | c # r \<Rightarrow>
          if c = CHR ''-'' then (if digitpart r then Some (- int (digits_val r)) else None)
          else if c = CHR ''+'' then (if digitpart r then Some (int (digits_val r)) else None)
          else if digitpart (c # r) then Some (int (digits_val (c # r))) else None)"

text \<open>
  \<^verbatim>\<open>int(s)\<close> on text, base ten: \<open>None\<close> stands for ValueError. The interpreter's
  configurable limit on the number of digits is not modelled.
\<close>

definition py_int :: "string \<Rightarrow> int option" where
  "py_int s = signed_digits (strip s)"

text \<open>
  \<^verbatim>\<open>float(s)\<close> on text: \<open>None\<close> stands for ValueError. A finite literal is kept as
  the exact decimal it denotes; rounding to a binary double is not modelled, so a comparison
  with \<open>-10\<close> is the comparison of the decimal itself.
\<close>

datatype pyfloat = Finite real | PosInf | NegInf | NaN

fun fneg :: "pyfloat \<Rightarrow> pyfloat" where
  "fneg (Finite x) = Finite (- x)"
| "fneg PosInf = NegInf"
| "fneg NegInf = PosInf"
| "fneg NaN = NaN"

definition lower_code :: "char \<Rightarrow> nat" where
  "lower_code c = (if 65 \<le> (of_char c :: nat) \<and> (of_char c :: nat) \<le> 90
                   then of_char c + 32 else of_char c)"

definition is_exp_mark :: "char \<Rightarrow> bool" where
  "is_exp_mark c = (c = CHR ''e'' \<or> c = CHR ''E'')"

definition mantissa :: "string \<Rightarrow> real option" where
  "mantissa m =
     (let ip = takeWhile (\<lambda>c. c \<noteq> CHR ''.'') m;
          rest = dropWhile (\<lambda>c. c \<noteq> CHR ''.'') m
      in if rest = [] then (if digitpart ip then Some (real (digits_val ip)) else None)
         else let fp = tl rest
              in if (digitpart ip \<and> (fp = [] \<or> digitpart fp)) \<or> (ip = [] \<and> digitpart fp)
                 then Some (real (digits_val ip)
                            + real (digits_val fp) / 10 ^ length (filter isdigit fp))
                 else None)"

definition exponent :: "string \<Rightarrow> int option" where
  "exponent ex = (if ex = [] then Some 0 else signed_digits (tl ex))"

definition scale10 :: "real \<Rightarrow> int \<Rightarrow> real" where
  "scale10 x e = (if 0 \<le> e then x * 10 ^ nat e else x / 10 ^ nat (- e))"

definition decimal :: "string \<Rightarrow> pyfloat option" where
  "decimal u =
     (case mantissa (takeWhile (\<lambda>c. \<not> is_exp_mark c) u) of
        None \<Rightarrow> None
      | Some x \<Rightarrow>
          (case exponent (dropWhile (\<lambda>c. \<not> is_exp_mark c) u) of
             None \<Rightarrow> None
           | Some e \<Rightarrow> Some (Finite (scale10 x e))))"

definition float_unsigned :: "string \<Rightarrow> pyfloat option" where
  "float_unsigned u =
     (if map lower_code u = map of_char ''inf'' \<or> map lower_code u = map of_char ''infinity''
      then Some PosInf
      else if map lower_code u = map of_char ''nan'' then Some NaN
      else decimal u)"

definition py_float :: "string \<Rightarrow> pyfloat option" where
  "py_float s =
     (case strip s of
        [] \<Rightarrow> None
      | c # r \<Rightarrow>
          if c = CHR ''-'' then map_option fneg (float_unsigned r)
          else if c = CHR ''+'' then float_unsigned r
          else float_unsigned (c # r))"

text \<open>\<^verbatim>\<open>snr < -10\<close> on a float: false for NaN.\<close>

fun below_minus_ten :: "pyfloat \<Rightarrow> bool" where
  "below_minus_ten (Finite x) = (x < - 10)"
| "below_minus_ten NegInf = True"
| "below_minus_ten PosInf = False"
| "below_minus_ten NaN = False"

section \<open>node-health-alert.py\<close>

type_synonym fields = "string \<rightharpoonup> string"

text \<open>
  The three dictionaries of \<^verbatim>\<open>NodeHealthMonitor\<close> that the checks read and write.
  Times are the values of \<^verbatim>\<open>time.time()\<close>; each call of \<open>check_node_health\<close> is
  given one clock reading \<open>now\<close>.
\<close>

record monitor =
  last_seen :: "string \<rightharpoonup> real"
  battery_status :: "string \<rightharpoonup> int"
  alert_count :: "string \<rightharpoonup> real"

definition init_monitor :: monitor where
  "init_monitor = \<lparr>last_seen = Map.empty, battery_status = Map.empty, alert_count = Map.empty\<rparr>"

definition BATTERY_THRESHOLD :: int where
  "BATTERY_THRESHOLD = 20"

text \<open>
  An alert is the message appended to \<^verbatim>\<open>alerts\<close>, kept as its kind and the values
  interpolated into it (the node id, the battery level, the SNR); the clock text and the fixed
  wording are left out.
\<close>

datatype alert =
    OFFLINE string
  | BATTERY_LOW string int
  | WEAK_SIGNAL string pyfloat

text \<open>\<^verbatim>\<open>f"{node_id}_battery"\<close> and \<^verbatim>\<open>f"{node_id}_snr"\<close>.\<close>

definition battery_key :: "string \<Rightarrow> string" where
  "battery_key node_id = node_id @ ''_battery''"

definition snr_key :: "string \<Rightarrow> string" where
  "snr_key node_id = node_id @ ''_snr''"

text \<open>
  \<^verbatim>\<open>alert_key not in self.alert_count or (time.time() - self.alert_count[alert_key]) > 3600\<close>
\<close>

definition may_fire :: "monitor \<Rightarrow> string \<Rightarrow> real \<Rightarrow> bool" where
  "may_fire s alert_key now =
     (case alert_count s alert_key of None \<Rightarrow> True | Some t \<Rightarrow> now - t > 3600)"

text \<open>
  The value of \<^verbatim>\<open>battery_level\<close> when the battery block reaches its assignment:
  the field is looked up with default \<^verbatim>\<open>''\<close>, must be non-empty and contain a percent sign,
  and \<^verbatim>\<open>int\<close> must accept it once the percent signs are removed and it is stripped.
\<close>

definition battery_level :: "fields \<Rightarrow> int option" where
  "battery_level node_data =
     (let battery_str = (case node_data ''Battery'' of None \<Rightarrow> [] | Some v \<Rightarrow> v)
      in if battery_str \<noteq> [] \<and> CHR ''%'' \<in> set battery_str
         then py_int (strip (replace_empty ''%'' battery_str))
         else None)"

definition snr_value :: "fields \<Rightarrow> pyfloat option" where
  "snr_value node_data =
     (let snr_str = (case node_data ''SNR'' of None \<Rightarrow> [] | Some v \<Rightarrow> v)
      in if snr_str \<noteq> [] \<and> contains snr_str ''dB''
         then py_float (strip (replace_empty ''dB'' snr_str))
         else None)"

text \<open>
  The battery block. A ValueError of \<^verbatim>\<open>int\<close> is raised before anything is written and
  is caught, so the block then leaves the state as it was.
\<close>

definition check_battery ::
  "int \<Rightarrow> real \<Rightarrow> monitor \<Rightarrow> string \<Rightarrow> fields \<Rightarrow> alert list \<times> monitor" where
  "check_battery threshold now s node_id node_data =
     (case battery_level node_data of
        None \<Rightarrow> ([], s)
      | Some level \<Rightarrow>
          let (alerts, s1) =
                (if level \<le> threshold \<and> may_fire s (battery_key node_id) now
                 then ([BATTERY_LOW node_id level],
                       s\<lparr>alert_count := (alert_count s)(battery_key node_id \<mapsto> now)\<rparr>)
                 else ([], s))
          in (alerts, s1\<lparr>battery_status := (battery_status s1)(node_id \<mapsto> level)\<rparr>))"

definition check_snr ::
  "real \<Rightarrow> monitor \<Rightarrow> string \<Rightarrow> fields \<Rightarrow> alert list \<times> monitor" where
  "check_snr now s node_id node_data =
     (case snr_value node_data of
        None \<Rightarrow> ([], s)
      | Some snr \<Rightarrow>
          if below_minus_ten snr \<and> may_fire s (snr_key node_id) now
          then ([WEAK_SIGNAL node_id snr],
                s\<lparr>alert_count := (alert_count s)(snr_key node_id \<mapsto> now)\<rparr>)
          else ([], s))"

text \<open>
  \<^verbatim>\<open>check_node_health(node_id, node_data)\<close>, with the global battery threshold and the
  clock as arguments; it returns the alerts and the monitor after the call.
\<close>

definition check_node_health ::
  "int \<Rightarrow> real \<Rightarrow> monitor \<Rightarrow> string \<Rightarrow> fields \<Rightarrow> alert list \<times> monitor" where
  "check_node_health threshold now s node_id node_data =
     (if node_data = Map.empty
      then (if node_id \<in> dom (last_seen s) then [OFFLINE node_id] else [], s)
      else
        let s1 = s\<lparr>last_seen := (last_seen s)(node_id \<mapsto> now)\<rparr>;
            (alerts2, s2) = check_battery threshold now s1 node_id node_data;
            (alerts3, s3) = check_snr now s2 node_id node_data
        in (alerts2 @ alerts3, s3))"

text \<open>
  Successive calls of \<open>check_node_health\<close>, one for each observation (clock, node id,
  field map), as the monitoring loop makes them; the result lists the alerts of every call.
\<close>

fun observe ::
  "int \<Rightarrow> monitor \<Rightarrow> (real \<times> string \<times> fields) list \<Rightarrow> alert list list \<times> monitor" where
  "observe threshold s [] = ([], s)"
| "observe threshold s ((now, node_id, node_data) # rest) =
     (let (alerts, s1) = check_node_health threshold now s node_id node_data;
          (more, s2) = observe threshold s1 rest
      in (alerts # more, s2))"

text \<open>
  \<^verbatim>\<open>parse_node_data(output, node_id)\<close>: the loop over the lines, with the flag
  \<^verbatim>\<open>in_target_node\<close> and the dictionary built so far; \<^verbatim>\<open>break\<close> returns it.
\<close>

fun scan_node :: "string \<Rightarrow> bool \<Rightarrow> fields \<Rightarrow> string list \<Rightarrow> py_error + fields" where
  "scan_node node_id in_target node_data [] = Inr node_data"
| "scan_node node_id in_target node_data (line # rest) =
     (if strip line = node_id then scan_node node_id True node_data rest
      else if in_target then
        (if startswith line ''!'' then Inr node_data
         else if CHR '':'' \<in> set line then
           (case unpack2 (split_colon line) of
              Inl e \<Rightarrow> Inl e
            | Inr (key, value) \<Rightarrow>
                scan_node node_id True (node_data(strip key \<mapsto> strip value)) rest)
         else scan_node node_id True node_data rest)
      else scan_node node_id False node_data rest)"

definition parse_node_data :: "string \<Rightarrow> string \<Rightarrow> py_error + fields" where
  "parse_node_data output node_id = scan_node node_id False Map.empty (split_lines output)"

section \<open>mesh-monitor.py\<close>

text \<open>
  \<^verbatim>\<open>parse_nodes(output)\<close>: the loop over the lines, with the dictionary \<^verbatim>\<open>nodes\<close>
  and \<^verbatim>\<open>current_node\<close>. Reading \<^verbatim>\<open>nodes[current_node]\<close> raises KeyError when the
  key is missing.
\<close>

fun parse_lines ::
  "(string \<rightharpoonup> fields) \<Rightarrow> string option \<Rightarrow> string list \<Rightarrow> py_error + (string \<rightharpoonup> fields)" where
  "parse_lines nodes current_node [] = Inr nodes"
| "parse_lines nodes current_node (line # rest) =
     (if startswith line ''  '' then
        (if CHR '':'' \<in> set line then
           (case unpack2 (split_colon (strip line)) of
              Inl e \<Rightarrow> Inl e
            | Inr (key, value) \<Rightarrow>
                (case current_node of
                   None \<Rightarrow> parse_lines nodes current_node rest
                 | Some c \<Rightarrow>
                     if c \<noteq> [] \<and> key \<noteq> [] \<and> value \<noteq> [] then
                       (case nodes c of
                          None \<Rightarrow> Inl KeyError
                        | Some f \<Rightarrow>
                            parse_lines (nodes(c \<mapsto> f(strip key \<mapsto> strip value)))
                              current_node rest)
                     else parse_lines nodes current_node rest))
         else parse_lines nodes current_node rest)
      else
        (let node_id = strip line
         in if startswith node_id ''!''
            then parse_lines (nodes(node_id \<mapsto> Map.empty)) (Some node_id) rest
            else parse_lines nodes current_node rest))"

definition parse_nodes :: "string \<Rightarrow> py_error + (string \<rightharpoonup> fields)" where
  "parse_nodes output = parse_lines Map.empty None (split_lines output)"

section \<open>Notions of the specification\<close>

text \<open>The fixed order of the alert categories: offline, low battery, weak signal.\<close>

definition category_rank :: "alert \<Rightarrow> nat" where
  "category_rank a = (case a of OFFLINE n \<Rightarrow> 0 | BATTERY_LOW n b \<Rightarrow> 1 | WEAK_SIGNAL n x \<Rightarrow> 2)"

text \<open>
  The line rules of the specification for \<open>parse\<close>, as it words them: a header has no
  leading whitespace and begins with an exclamation mark; another line is a field line when it
  begins with whitespace and contains a colon; a field line is split at its first colon, both
  sides trimmed, and stored for the current node; without a current node it is dropped.
\<close>

definition leading_space :: "string \<Rightarrow> bool" where
  "leading_space line = (case line of [] \<Rightarrow> False | c # r \<Rightarrow> isspace c)"

definition spec_header :: "string \<Rightarrow> bool" where
  "spec_header line =
     (strip line \<noteq> [] \<and> \<not> leading_space line \<and> startswith (strip line) ''!'')"

definition spec_field :: "string \<Rightarrow> bool" where
  "spec_field line = (\<not> spec_header line \<and> leading_space line \<and> CHR '':'' \<in> set line)"

definition before_colon :: "string \<Rightarrow> string" where
  "before_colon s = takeWhile (\<lambda>c. c \<noteq> CHR '':'') s"

definition after_colon :: "string \<Rightarrow> string" where
  "after_colon s = tl (dropWhile (\<lambda>c. c \<noteq> CHR '':'') s)"

definition store_field ::
  "(string \<rightharpoonup> fields) \<Rightarrow> string \<Rightarrow> string \<Rightarrow> string \<Rightarrow> (string \<rightharpoonup> fields)" where
  "store_field nodes c key value =
     nodes(c \<mapsto> (case nodes c of None \<Rightarrow> Map.empty | Some f \<Rightarrow> f)(key \<mapsto> value))"

fun spec_line ::
  "(string \<rightharpoonup> fields) \<times> string option \<Rightarrow> string \<Rightarrow> (string \<rightharpoonup> fields) \<times> string option" where
  "spec_line (nodes, current) line =
     (if spec_header line then (nodes(strip line \<mapsto> Map.empty), Some (strip line))
      else if spec_field line then
        (case current of
           None \<Rightarrow> (nodes, current)
         | Some c \<Rightarrow>
             (store_field nodes c (strip (before_colon line)) (strip (after_colon line)),
              current))
      else (nodes, current))"

definition spec_parse :: "string \<Rightarrow> (string \<rightharpoonup> fields)" where
  "spec_parse text = fst (foldl spec_line (Map.empty, None) (split_lines text))"

text \<open>
  The line rules that \<open>parse_nodes\<close> follows: a line that begins with two spaces is a
  field line when it contains a colon and, once trimmed, has text on both sides of its first
  colon; a line that does not begin with two spaces is a header when its trimmed text begins
  with an exclamation mark.
\<close>

definition is_header :: "string \<Rightarrow> bool" where
  "is_header line = (\<not> startswith line ''  '' \<and> startswith (strip line) ''!'')"

definition is_field :: "string \<Rightarrow> bool" where
  "is_field line =
     (startswith line ''  '' \<and> CHR '':'' \<in> set line \<and>
      before_colon (strip line) \<noteq> [] \<and> after_colon (strip line) \<noteq> [])"

fun rule_line ::
  "(string \<rightharpoonup> fields) \<times> string option \<Rightarrow> string \<Rightarrow> (string \<rightharpoonup> fields) \<times> string option" where
  "rule_line (nodes, current) line =
     (if is_header line then (nodes(strip line \<mapsto> Map.empty), Some (strip line))
      else if is_field line then
        (case current of
           None \<Rightarrow> (nodes, current)
         | Some c \<Rightarrow>
             (store_field nodes c (strip (before_colon (strip line)))
                (strip (after_colon (strip line))),
              current))
      else (nodes, current))"

definition rule_parse :: "string \<Rightarrow> (string \<rightharpoonup> fields)" where
  "rule_parse text = fst (foldl rule_line (Map.empty, None) (split_lines text))"

text \<open>
  The invariant of the loop of \<open>parse_nodes\<close>: the current node, once set, is a non-empty
  key of the dictionary.
\<close>

definition current_known :: "(string \<rightharpoonup> fields) \<times> string option \<Rightarrow> bool" where
  "current_known p = (case snd p of None \<Rightarrow> True | Some c \<Rightarrow> c \<noteq> [] \<and> fst p c \<noteq> None)"

text \<open>The header strings of a text, in order: its header lines, trimmed.\<close>

definition headers :: "string \<Rightarrow> string list" where
  "headers text = map strip (filter is_header (split_lines text))"

text \<open>
  The block of a target node in a list of lines. As the specification words it, the block is
  the lines after the first line equal to the target once trimmed, up to the next line that
  begins with an exclamation mark.
\<close>

definition after_target :: "string \<Rightarrow> string list \<Rightarrow> string list" where
  "after_target node_id ls = drop 1 (dropWhile (\<lambda>l. strip l \<noteq> node_id) ls)"

definition spec_block :: "string \<Rightarrow> string list \<Rightarrow> string list" where
  "spec_block node_id ls = takeWhile (\<lambda>l. \<not> startswith l ''!'') (after_target node_id ls)"

text \<open>
  The lines that the loop of \<open>parse_node_data\<close> visits after it has found the target and
  before it breaks, and the dictionary it builds from a list of visited lines: a line equal to
  the target once trimmed is passed over by \<^verbatim>\<open>continue\<close>, every other line with a colon is
  stored.
\<close>

definition target_block :: "string \<Rightarrow> string list \<Rightarrow> string list" where
  "target_block node_id ls =
     takeWhile (\<lambda>l. strip l = node_id \<or> \<not> startswith l ''!'') (after_target node_id ls)"

definition collect :: "string \<Rightarrow> fields \<Rightarrow> string list \<Rightarrow> fields" where
  "collect node_id node_data ls =
     foldl (\<lambda>m l. m(strip (before_colon l) \<mapsto> strip (after_colon l))) node_data
       (filter (\<lambda>l. strip l \<noteq> node_id \<and> CHR '':'' \<in> set l) ls)"

section \<open>Evaluation of the primitives on literals\<close>

lemmas py_eval =
  strip_def isspace_def isdigit_def digits_val_def signed_digits_def py_int_def
  py_float_def float_unsigned_def decimal_def mantissa_def exponent_def scale10_def
  is_exp_mark_def lower_code_def split_colon_def

lemmas health_eval =
  check_node_health_def check_battery_def check_snr_def battery_level_def snr_value_def
  may_fire_def battery_key_def snr_key_def init_monitor_def BATTERY_THRESHOLD_def

section \<open>Alert keys\<close>

text \<open>
  C10. The keys of \<^verbatim>\<open>alert_count\<close> are the node id followed by \<^verbatim>\<open>_battery\<close> or by
  \<^verbatim>\<open>_snr\<close>. Two battery keys are equal only for equal node ids, two SNR keys likewise, and a
  battery key is never an SNR key, whatever the node ids contain: two different pairs of node
  and category never share an entry.
\<close>

theorem alert_key_injective:
  "(battery_key n1 = battery_key n2 \<longleftrightarrow> n1 = n2) \<and>
   (snr_key n1 = snr_key n2 \<longleftrightarrow> n1 = n2) \<and>
   battery_key n1 \<noteq> snr_key n2"
proof -
  have b: "last (battery_key n1) = CHR ''y''"
    by (simp add: battery_key_def)
  have r: "last (snr_key n2) = CHR ''r''"
    by (simp add: snr_key_def)
  have "battery_key n1 \<noteq> snr_key n2"
  proof
    assume "battery_key n1 = snr_key n2"
    with b r show False by simp
  qed
  then show ?thesis
    by (simp add: battery_key_def snr_key_def)
qed

section \<open>Offline alerts\<close>

lemma check_battery_last_seen:
  "last_seen (snd (check_battery thr now s n d)) = last_seen s"
  by (simp add: check_battery_def Let_def split: option.splits)

lemma check_snr_last_seen:
  "last_seen (snd (check_snr now s n d)) = last_seen s"
  by (simp add: check_snr_def split: option.splits)

lemma check_battery_no_offline:
  "OFFLINE m \<notin> set (fst (check_battery thr now s n d))"
  by (simp add: check_battery_def Let_def split: option.splits)

lemma check_snr_no_offline:
  "OFFLINE m \<notin> set (fst (check_snr now s n d))"
  by (simp add: check_snr_def split: option.splits)

lemma check_node_health_present:
  "d \<noteq> Map.empty \<Longrightarrow>
   check_node_health thr now s n d =
     (let s1 = s\<lparr>last_seen := (last_seen s)(n \<mapsto> now)\<rparr>;
          r2 = check_battery thr now s1 n d;
          r3 = check_snr now (snd r2) n d
      in (fst r2 @ fst r3, snd r3))"
  by (simp add: check_node_health_def Let_def split: prod.splits)

lemma check_node_health_absent:
  "check_node_health thr now s n Map.empty =
     (if n \<in> dom (last_seen s) then [OFFLINE n] else [], s)"
  by (simp add: check_node_health_def)

lemma check_last_seen:
  "last_seen (snd (check_node_health thr now s n d)) =
     (if d = Map.empty then last_seen s else (last_seen s)(n \<mapsto> now))"
  by (simp add: check_node_health_present check_node_health_absent Let_def
      check_battery_last_seen check_snr_last_seen)

lemma check_offline:
  "OFFLINE m \<in> set (fst (check_node_health thr now s n d)) \<longleftrightarrow>
     m = n \<and> d = Map.empty \<and> n \<in> dom (last_seen s)"
proof (cases "d = Map.empty")
  case True
  then show ?thesis by (auto simp: check_node_health_absent)
next
  case False
  then show ?thesis
    by (simp add: check_node_health_present Let_def
        check_battery_no_offline check_snr_no_offline)
qed

lemma observe_Cons:
  "observe thr s ((now, n, d) # rest) =
     (fst (check_node_health thr now s n d)
        # fst (observe thr (snd (check_node_health thr now s n d)) rest),
      snd (observe thr (snd (check_node_health thr now s n d)) rest))"
  by (simp add: Let_def split: prod.splits)

lemma observe_length: "length (fst (observe thr s obs)) = length obs"
  by (induction obs arbitrary: s) (auto simp: observe_Cons simp del: observe.simps(2))

lemma observe_offline:
  "i < length obs \<Longrightarrow>
   OFFLINE n \<in> set (fst (observe thr s obs) ! i) \<longleftrightarrow>
     fst (snd (obs ! i)) = n \<and> snd (snd (obs ! i)) = Map.empty \<and>
     (n \<in> dom (last_seen s) \<or>
      (\<exists>j<i. fst (snd (obs ! j)) = n \<and> snd (snd (obs ! j)) \<noteq> Map.empty))"
proof (induction obs arbitrary: s i)
  case Nil
  then show ?case by simp
next
  case (Cons ob rest)
  obtain now m d where ob: "ob = (now, m, d)" by (cases ob) auto
  obtain al s1 where c: "check_node_health thr now s m d = (al, s1)" by (cases "check_node_health thr now s m d") auto
  have ls: "last_seen s1 = (if d = Map.empty then last_seen s else (last_seen s)(m \<mapsto> now))"
    using check_last_seen [of thr now s m d] c by simp
  have off: "OFFLINE n \<in> set al \<longleftrightarrow> n = m \<and> d = Map.empty \<and> m \<in> dom (last_seen s)"
    using check_offline [of n thr now s m d] c by auto
  show ?case
  proof (cases i)
    case 0
    then show ?thesis using ob c off by (auto simp: observe_Cons simp del: observe.simps(2))
  next
    case (Suc k)
    then have k: "k < length rest" using Cons.prems by simp
    have "OFFLINE n \<in> set (fst (observe thr s (ob # rest)) ! i) \<longleftrightarrow>
          OFFLINE n \<in> set (fst (observe thr s1 rest) ! k)"
      using ob c Suc by (simp add: observe_Cons del: observe.simps(2))
    also have "\<dots> \<longleftrightarrow> fst (snd (rest ! k)) = n \<and> snd (snd (rest ! k)) = Map.empty \<and>
        (n \<in> dom (last_seen s1) \<or>
          (\<exists>j<k. fst (snd (rest ! j)) = n \<and> snd (snd (rest ! j)) \<noteq> Map.empty))"
      using Cons.IH [OF k] by simp
    also have "\<dots> \<longleftrightarrow> fst (snd ((ob # rest) ! i)) = n \<and> snd (snd ((ob # rest) ! i)) = Map.empty \<and>
        (n \<in> dom (last_seen s) \<or>
          (\<exists>j<i. fst (snd ((ob # rest) ! j)) = n \<and> snd (snd ((ob # rest) ! j)) \<noteq> Map.empty))"
    proof -
      have ex: "(\<exists>j<i. fst (snd ((ob # rest) ! j)) = n \<and> snd (snd ((ob # rest) ! j)) \<noteq> Map.empty)
        \<longleftrightarrow> (m = n \<and> d \<noteq> Map.empty) \<or> (\<exists>j<k. fst (snd (rest ! j)) = n \<and> snd (snd (rest ! j)) \<noteq> Map.empty)"
        unfolding Suc using ob by (auto simp: less_Suc_eq_0_disj)
      show ?thesis unfolding ex using Suc ls by (auto split: if_splits)
    qed
    finally show ?thesis .
  qed
qed


lemma observe_last_seen_dom:
  "dom (last_seen (snd (observe thr s obs))) =
     dom (last_seen s) \<union> {fst (snd ob) | ob. ob \<in> set obs \<and> snd (snd ob) \<noteq> Map.empty}"
proof (induction obs arbitrary: s)
  case Nil
  then show ?case by simp
next
  case (Cons ob rest)
  obtain now m d where ob: "ob = (now, m, d)" by (cases ob) auto
  show ?case
    unfolding ob observe_Cons snd_conv Cons.IH check_last_seen
    by (cases "d = Map.empty") auto
qed

text \<open>
  C1, as claimed: an offline alert only on the change from present to absent. The code keeps no
  record of the previous observation: in the sequence present, present, absent, absent,
  present the second absent observation (index 3) yields an offline alert again.
\<close>

theorem offline_refires_counterexample:
  "fst (observe BATTERY_THRESHOLD init_monitor
     [(0, ''!abc123'', [''Battery'' \<mapsto> ''80%'']),
      (300, ''!abc123'', [''Battery'' \<mapsto> ''80%'']),
      (600, ''!abc123'', Map.empty),
      (900, ''!abc123'', Map.empty),
      (1200, ''!abc123'', [''Battery'' \<mapsto> ''80%''])]) ! 3 = [OFFLINE ''!abc123'']"
  by (simp add: health_eval py_eval Let_def)

text \<open>
  C1, amended. Starting from a fresh monitor, the call for an observation of node \<open>n\<close> yields
  an offline alert for \<open>n\<close> exactly when the node is absent in that observation and was
  present in some earlier one; so every absent observation after the first presence fires, and
  the sequence present, present, absent, absent, present yields an offline alert at both
  absent observations and none at the present ones.
\<close>

theorem offline_on_every_absence_after_presence:
  "(i < length obs \<and> obs ! i = (now, n, d) \<longrightarrow>
      (OFFLINE n \<in> set (fst (observe thr init_monitor obs) ! i) \<longleftrightarrow>
         d = Map.empty \<and> (\<exists>j<i. \<exists>t' d'. obs ! j = (t', n, d') \<and> d' \<noteq> Map.empty))) \<and>
   fst (observe BATTERY_THRESHOLD init_monitor
     [(0, ''!abc123'', [''Battery'' \<mapsto> ''80%'']),
      (300, ''!abc123'', [''Battery'' \<mapsto> ''80%'']),
      (600, ''!abc123'', Map.empty),
      (900, ''!abc123'', Map.empty),
      (1200, ''!abc123'', [''Battery'' \<mapsto> ''80%''])]) =
     [[], [], [OFFLINE ''!abc123''], [OFFLINE ''!abc123''], []]"
proof (intro conjI impI)
  assume a: "i < length obs \<and> obs ! i = (now, n, d)"
  have e: "(\<exists>j<i. fst (snd (obs ! j)) = n \<and> snd (snd (obs ! j)) \<noteq> Map.empty) \<longleftrightarrow>
           (\<exists>j<i. \<exists>t' d'. obs ! j = (t', n, d') \<and> d' \<noteq> Map.empty)"
    by (metis fst_conv snd_conv prod.collapse)
  show "OFFLINE n \<in> set (fst (observe thr init_monitor obs) ! i) \<longleftrightarrow>
         d = Map.empty \<and> (\<exists>j<i. \<exists>t' d'. obs ! j = (t', n, d') \<and> d' \<noteq> Map.empty)"
    using a observe_offline [of i obs n thr init_monitor] unfolding e
    by (simp add: init_monitor_def)
next
  show "fst (observe BATTERY_THRESHOLD init_monitor
     [(0, ''!abc123'', [''Battery'' \<mapsto> ''80%'']),
      (300, ''!abc123'', [''Battery'' \<mapsto> ''80%'']),
      (600, ''!abc123'', Map.empty),
      (900, ''!abc123'', Map.empty),
      (1200, ''!abc123'', [''Battery'' \<mapsto> ''80%''])]) =
     [[], [], [OFFLINE ''!abc123''], [OFFLINE ''!abc123''], []]"
    by (simp add: health_eval py_eval Let_def)
qed

theorem offline_on_every_absence_after_presence_witness:
  "(1::nat) < length [(0::real, ''!a'', [''User'' \<mapsto> ''x'']), (300, ''!a'', Map.empty)] \<and>
   [(0::real, ''!a'', [''User'' \<mapsto> ''x'']), (300, ''!a'', Map.empty)] ! 1 = (300, ''!a'', Map.empty) \<and>
   OFFLINE ''!a'' \<in> set (fst (observe 20 init_monitor
      [(0, ''!a'', [''User'' \<mapsto> ''x'']), (300, ''!a'', Map.empty)]) ! 1)"
  using offline_on_every_absence_after_presence
    [of 1 "[(0, ''!a'', [''User'' \<mapsto> ''x'']), (300, ''!a'', Map.empty)]" 300 "''!a''" Map.empty 20]
  by simp

text \<open>
  C7. If every observation of node \<open>n\<close> since the monitor started found it absent, none of
  the calls made so far produced an offline alert for \<open>n\<close>, and a further call for \<open>n\<close>,
  absent again, returns no alert at all.
\<close>

theorem never_seen_not_offline:
  assumes "\<forall>ob \<in> set obs. fst (snd ob) = n \<longrightarrow> snd (snd ob) = Map.empty"
  shows "(\<forall>alerts \<in> set (fst (observe thr init_monitor obs)). OFFLINE n \<notin> set alerts) \<and>
         fst (check_node_health thr now (snd (observe thr init_monitor obs)) n Map.empty) = []"
proof
  show "\<forall>alerts \<in> set (fst (observe thr init_monitor obs)). OFFLINE n \<notin> set alerts"
  proof
    fix alerts assume "alerts \<in> set (fst (observe thr init_monitor obs))"
    then obtain i where i: "i < length obs" "alerts = fst (observe thr init_monitor obs) ! i"
      by (metis in_set_conv_nth observe_length)
    have "\<not> (\<exists>j<i. fst (snd (obs ! j)) = n \<and> snd (snd (obs ! j)) \<noteq> Map.empty)"
    proof
      assume "\<exists>j<i. fst (snd (obs ! j)) = n \<and> snd (snd (obs ! j)) \<noteq> Map.empty"
      then obtain j where j: "j < i" "fst (snd (obs ! j)) = n" "snd (snd (obs ! j)) \<noteq> Map.empty"
        by blast
      have "obs ! j \<in> set obs" using j(1) i(1) by simp
      with assms j(2) have "snd (snd (obs ! j)) = Map.empty" by blast
      with j(3) show False by simp
    qed
    then show "OFFLINE n \<notin> set alerts"
      using observe_offline [OF i(1), of n thr init_monitor] i(2)
      by (simp add: init_monitor_def)
  qed
next
  have "n \<notin> dom (last_seen (snd (observe thr init_monitor obs)))"
    unfolding observe_last_seen_dom using assms by (auto simp: init_monitor_def)
  then show "fst (check_node_health thr now (snd (observe thr init_monitor obs)) n Map.empty) = []"
    by (simp add: check_node_health_absent)
qed

theorem never_seen_not_offline_witness:
  "fst (check_node_health 20 300
      (snd (observe 20 init_monitor [(0, ''!b'', [''User'' \<mapsto> ''x'']), (0, ''!a'', Map.empty)]))
      ''!a'' Map.empty) = []"
proof -
  have h: "\<forall>ob \<in> set [(0::real, ''!b'', [''User'' \<mapsto> ''x'']), (0, ''!a'', Map.empty)].
      fst (snd ob) = ''!a'' \<longrightarrow> snd (snd ob) = Map.empty"
    by simp
  show ?thesis
    using never_seen_not_offline [OF h, of 20 300] by blast
qed

section \<open>Battery and signal alerts\<close>

lemma check_battery_alerts:
  "fst (check_battery thr now s n d) =
     (case battery_level d of
        None \<Rightarrow> []
      | Some b \<Rightarrow> if b \<le> thr \<and> may_fire s (battery_key n) now then [BATTERY_LOW n b] else [])"
  by (simp add: check_battery_def Let_def split: option.splits)

lemma check_battery_alert_count:
  "alert_count (snd (check_battery thr now s n d)) =
     (if fst (check_battery thr now s n d) = [] then alert_count s
      else (alert_count s)(battery_key n \<mapsto> now))"
  by (simp add: check_battery_def Let_def split: option.splits)

lemma check_battery_status:
  "battery_status (snd (check_battery thr now s n d)) =
     (case battery_level d of None \<Rightarrow> battery_status s
      | Some b \<Rightarrow> (battery_status s)(n \<mapsto> b))"
  by (simp add: check_battery_def Let_def split: option.splits)

lemma check_snr_alerts:
  "fst (check_snr now s n d) =
     (case snr_value d of
        None \<Rightarrow> []
      | Some x \<Rightarrow> if below_minus_ten x \<and> may_fire s (snr_key n) now then [WEAK_SIGNAL n x] else [])"
  by (simp add: check_snr_def split: option.splits)

lemma check_snr_alert_count:
  "alert_count (snd (check_snr now s n d)) =
     (if fst (check_snr now s n d) = [] then alert_count s
      else (alert_count s)(snr_key n \<mapsto> now))"
  by (simp add: check_snr_def split: option.splits)

lemma check_snr_status:
  "battery_status (snd (check_snr now s n d)) = battery_status s"
  by (simp add: check_snr_def split: option.splits)

lemma battery_level_empty: "battery_level Map.empty = None"
  by (simp add: battery_level_def)

lemma snr_value_empty: "snr_value Map.empty = None"
  by (simp add: snr_value_def)

lemma keys_differ: "battery_key n \<noteq> snr_key n"
proof
  assume "battery_key n = snr_key n"
  then have "last (battery_key n) = last (snr_key n)" by simp
  then show False by (simp add: battery_key_def snr_key_def)
qed

lemma may_fire_last_seen:
  "may_fire (last_seen_update f s) k now = may_fire s k now"
  by (simp add: may_fire_def)

lemma check_node_health_alerts:
  "fst (check_node_health thr now s n d) =
     (if d = Map.empty then (if n \<in> dom (last_seen s) then [OFFLINE n] else [])
      else (case battery_level d of
              None \<Rightarrow> []
            | Some b \<Rightarrow> if b \<le> thr \<and> may_fire s (battery_key n) now
                         then [BATTERY_LOW n b] else [])
           @ (case snr_value d of
                None \<Rightarrow> []
              | Some x \<Rightarrow> if below_minus_ten x \<and> may_fire s (snr_key n) now
                           then [WEAK_SIGNAL n x] else []))"
proof (cases "d = Map.empty")
  case True
  then show ?thesis by (simp add: check_node_health_absent)
next
  case False
  have mf: "may_fire (snd (check_battery thr now (last_seen_update f s) n d))
              (snr_key n) now = may_fire s (snr_key n) now" for f
    using keys_differ [of n]
    by (simp add: may_fire_def check_battery_alert_count)
  show ?thesis using False
    by (simp add: check_node_health_present Let_def check_battery_alerts check_snr_alerts
        may_fire_last_seen mf cong: option.case_cong if_cong)
qed

lemma check_node_health_alert_count_battery:
  "alert_count (snd (check_node_health thr now s n d)) (battery_key n) =
     (if (\<exists>b. BATTERY_LOW n b \<in> set (fst (check_node_health thr now s n d)))
      then Some now else alert_count s (battery_key n))"
proof (cases "d = Map.empty")
  case True
  then show ?thesis by (simp add: check_node_health_absent)
next
  case False
  have ex: "(\<exists>b. BATTERY_LOW n b \<in> set (fst (check_node_health thr now s n d))) \<longleftrightarrow>
            fst (check_battery thr now (s\<lparr>last_seen := (last_seen s)(n \<mapsto> now)\<rparr>) n d) \<noteq> []"
    using False
    by (auto simp: check_node_health_alerts check_battery_alerts may_fire_last_seen
        split: option.splits if_splits)
  show ?thesis unfolding ex using False keys_differ [of n]
    by (simp add: check_node_health_present Let_def check_snr_alert_count
        check_battery_alert_count)
qed

text \<open>
  C2. A call of \<open>check_node_health\<close> produces the low-battery alert with level \<open>b\<close>
  exactly when the Battery field parses to \<open>b\<close>, \<open>b\<close> is at most the threshold, and the
  node's battery entry of \<open>alert_count\<close> is missing or more than 3600 older than the clock;
  when it fires, the entry is the clock afterwards. With the default threshold, ten calls for
  a node at 10 percent, 60 apart from time 0 on, give one alert, at the first call, and an
  eleventh call at time 3601 gives the second.
\<close>

theorem low_battery_cooldown:
  "(BATTERY_LOW n b \<in> set (fst (check_node_health thr now s n d)) \<longleftrightarrow>
      battery_level d = Some b \<and> b \<le> thr \<and>
      (alert_count s (battery_key n) = None \<or>
       (\<exists>t. alert_count s (battery_key n) = Some t \<and> now - t > 3600))) \<and>
   (BATTERY_LOW n b \<in> set (fst (check_node_health thr now s n d)) \<longrightarrow>
      alert_count (snd (check_node_health thr now s n d)) (battery_key n) = Some now) \<and>
   fst (observe BATTERY_THRESHOLD init_monitor
     [(0, ''!abc123'', [''Battery'' \<mapsto> ''10%'']),
      (60, ''!abc123'', [''Battery'' \<mapsto> ''10%'']),
      (120, ''!abc123'', [''Battery'' \<mapsto> ''10%'']),
      (180, ''!abc123'', [''Battery'' \<mapsto> ''10%'']),
      (240, ''!abc123'', [''Battery'' \<mapsto> ''10%'']),
      (300, ''!abc123'', [''Battery'' \<mapsto> ''10%'']),
      (360, ''!abc123'', [''Battery'' \<mapsto> ''10%'']),
      (420, ''!abc123'', [''Battery'' \<mapsto> ''10%'']),
      (480, ''!abc123'', [''Battery'' \<mapsto> ''10%'']),
      (540, ''!abc123'', [''Battery'' \<mapsto> ''10%'']),
      (3601, ''!abc123'', [''Battery'' \<mapsto> ''10%''])]) =
     [[BATTERY_LOW ''!abc123'' 10], [], [], [], [], [], [], [], [], [],
      [BATTERY_LOW ''!abc123'' 10]]"
proof (intro conjI)
  have mf: "may_fire s (battery_key n) now \<longleftrightarrow>
      (alert_count s (battery_key n) = None \<or>
       (\<exists>t. alert_count s (battery_key n) = Some t \<and> now - t > 3600))"
    by (simp add: may_fire_def split: option.splits)
  show "BATTERY_LOW n b \<in> set (fst (check_node_health thr now s n d)) \<longleftrightarrow>
      battery_level d = Some b \<and> b \<le> thr \<and>
      (alert_count s (battery_key n) = None \<or>
       (\<exists>t. alert_count s (battery_key n) = Some t \<and> now - t > 3600))"
    unfolding mf [symmetric]
    by (auto simp: check_node_health_alerts battery_level_empty split: option.splits if_splits)
next
  show "BATTERY_LOW n b \<in> set (fst (check_node_health thr now s n d)) \<longrightarrow>
      alert_count (snd (check_node_health thr now s n d)) (battery_key n) = Some now"
    unfolding check_node_health_alert_count_battery by auto
next
  have lvl: "battery_level [''Battery'' \<mapsto> ''10%''] = Some 10"
    by (simp add: battery_level_def py_eval)
  have snr: "snr_value [''Battery'' \<mapsto> ''10%''] = None"
    by (simp add: snr_value_def)
  show "fst (observe BATTERY_THRESHOLD init_monitor
     [(0, ''!abc123'', [''Battery'' \<mapsto> ''10%'']),
      (60, ''!abc123'', [''Battery'' \<mapsto> ''10%'']),
      (120, ''!abc123'', [''Battery'' \<mapsto> ''10%'']),
      (180, ''!abc123'', [''Battery'' \<mapsto> ''10%'']),
      (240, ''!abc123'', [''Battery'' \<mapsto> ''10%'']),
      (300, ''!abc123'', [''Battery'' \<mapsto> ''10%'']),
      (360, ''!abc123'', [''Battery'' \<mapsto> ''10%'']),
      (420, ''!abc123'', [''Battery'' \<mapsto> ''10%'']),
      (480, ''!abc123'', [''Battery'' \<mapsto> ''10%'']),
      (540, ''!abc123'', [''Battery'' \<mapsto> ''10%'']),
      (3601, ''!abc123'', [''Battery'' \<mapsto> ''10%''])]) =
     [[BATTERY_LOW ''!abc123'' 10], [], [], [], [], [], [], [], [], [],
      [BATTERY_LOW ''!abc123'' 10]]"
    by (simp add: check_node_health_def check_battery_def check_snr_def lvl snr may_fire_def
        battery_key_def init_monitor_def BATTERY_THRESHOLD_def Let_def)
qed

theorem low_battery_cooldown_witness:
  "alert_count (snd (check_node_health 20 5000
       \<lparr>last_seen = Map.empty, battery_status = Map.empty,
        alert_count = [battery_key ''!a'' \<mapsto> 1000]\<rparr> ''!a'' [''Battery'' \<mapsto> ''10%'']))
     (battery_key ''!a'') = Some 5000"
proof -
  have lvl: "battery_level [''Battery'' \<mapsto> ''10%''] = Some 10"
    by (simp add: battery_level_def py_eval)
  show ?thesis
    using low_battery_cooldown [of "''!a''" 10 20 5000
      "\<lparr>last_seen = Map.empty, battery_status = Map.empty,
        alert_count = [battery_key ''!a'' \<mapsto> 1000]\<rparr>" "[''Battery'' \<mapsto> ''10%'']"]
    by (simp add: lvl)
qed

text \<open>
  C3. The alerts of one call are in the order offline, low battery, weak signal, each kind at
  most once. For the field map with Battery 15 percent and SNR -12.3dB at time 1000 on a fresh
  monitor the call returns the low-battery alert and then the weak-signal alert, and both
  entries of \<open>alert_count\<close> for the node are 1000 afterwards.
\<close>

theorem alert_order:
  "sorted_wrt (<) (map category_rank (fst (check_node_health thr now s n d))) \<and>
   fst (check_node_health BATTERY_THRESHOLD 1000 init_monitor ''!abc123''
          [''Battery'' \<mapsto> ''15%'', ''SNR'' \<mapsto> ''-12.3dB'']) =
     [BATTERY_LOW ''!abc123'' 15, WEAK_SIGNAL ''!abc123'' (Finite (- 12.3))] \<and>
   alert_count (snd (check_node_health BATTERY_THRESHOLD 1000 init_monitor ''!abc123''
          [''Battery'' \<mapsto> ''15%'', ''SNR'' \<mapsto> ''-12.3dB''])) (battery_key ''!abc123'') = Some 1000 \<and>
   alert_count (snd (check_node_health BATTERY_THRESHOLD 1000 init_monitor ''!abc123''
          [''Battery'' \<mapsto> ''15%'', ''SNR'' \<mapsto> ''-12.3dB''])) (snr_key ''!abc123'') = Some 1000"
proof (intro conjI)
  show "sorted_wrt (<) (map category_rank (fst (check_node_health thr now s n d)))"
    by (simp add: check_node_health_alerts category_rank_def split: option.splits)
next
  have lvl: "battery_level [''Battery'' \<mapsto> ''15%'', ''SNR'' \<mapsto> ''-12.3dB''] = Some 15"
    by (simp add: battery_level_def py_eval)
  have snr: "snr_value [''Battery'' \<mapsto> ''15%'', ''SNR'' \<mapsto> ''-12.3dB''] = Some (Finite (- 12.3))"
    by (simp add: snr_value_def py_eval)
  have r: "check_node_health BATTERY_THRESHOLD 1000 init_monitor ''!abc123''
          [''Battery'' \<mapsto> ''15%'', ''SNR'' \<mapsto> ''-12.3dB''] =
        ([BATTERY_LOW ''!abc123'' 15, WEAK_SIGNAL ''!abc123'' (Finite (- 12.3))],
         \<lparr>last_seen = [''!abc123'' \<mapsto> 1000], battery_status = [''!abc123'' \<mapsto> 15],
          alert_count = [battery_key ''!abc123'' \<mapsto> 1000, snr_key ''!abc123'' \<mapsto> 1000]\<rparr>)"
    by (simp add: check_node_health_def check_battery_def check_snr_def lvl snr may_fire_def
        battery_key_def snr_key_def init_monitor_def BATTERY_THRESHOLD_def Let_def)
  show "fst (check_node_health BATTERY_THRESHOLD 1000 init_monitor ''!abc123''
          [''Battery'' \<mapsto> ''15%'', ''SNR'' \<mapsto> ''-12.3dB'']) =
     [BATTERY_LOW ''!abc123'' 15, WEAK_SIGNAL ''!abc123'' (Finite (- 12.3))]"
    by (simp add: r)
  show "alert_count (snd (check_node_health BATTERY_THRESHOLD 1000 init_monitor ''!abc123''
          [''Battery'' \<mapsto> ''15%'', ''SNR'' \<mapsto> ''-12.3dB''])) (battery_key ''!abc123'') = Some 1000"
    by (simp add: r battery_key_def snr_key_def)
  show "alert_count (snd (check_node_health BATTERY_THRESHOLD 1000 init_monitor ''!abc123''
          [''Battery'' \<mapsto> ''15%'', ''SNR'' \<mapsto> ''-12.3dB''])) (snr_key ''!abc123'') = Some 1000"
    by (simp add: r)
qed


lemma digitpart_has_digit: "digitpart t \<Longrightarrow> \<exists>c \<in> set t. isdigit c"
  by (induction t rule: digitpart.induct) (auto split: if_splits)

lemma signed_digits_has_digit:
  assumes "signed_digits t = Some b"
  shows "\<exists>c \<in> set t. isdigit c"
proof (cases t)
  case Nil
  with assms show ?thesis by (simp add: signed_digits_def)
next
  case (Cons c r)
  then have "digitpart r \<or> digitpart (c # r)"
    using assms by (auto simp: signed_digits_def split: if_splits)
  then have "(\<exists>c \<in> set r. isdigit c) \<or> (\<exists>x \<in> set (c # r). isdigit x)"
    using digitpart_has_digit by blast
  then show ?thesis using Cons by auto
qed

lemma set_strip: "set (strip t) \<subseteq> set t"
proof -
  have "set (strip t) \<subseteq> set (dropWhile isspace t)"
    unfolding strip_def using set_dropWhileD [of _ isspace "rev (dropWhile isspace t)"] by auto
  also have "\<dots> \<subseteq> set t" using set_dropWhileD [of _ isspace t] by auto
  finally show ?thesis .
qed

lemma set_replace_empty: "set (replace_empty old t) \<subseteq> set t"
proof (induction old t rule: replace_empty.induct)
  case (1 old)
  then show ?case by simp
next
  case (2 old c cs)
  show ?case
  proof (cases "old \<noteq> [] \<and> startswith (c # cs) old")
    case True
    have "set (replace_empty old (drop (length old) (c # cs))) \<subseteq> set (drop (length old) (c # cs))"
      using 2(1) True by simp
    also have "\<dots> \<subseteq> set (c # cs)" by (rule set_drop_subset)
    finally show ?thesis using True by (simp del: startswith.simps)
  next
    case False
    then show ?thesis using 2(2) by (auto simp del: startswith.simps)
  qed
qed

lemma py_int_has_digit: "py_int t = Some b \<Longrightarrow> \<exists>c \<in> set t. isdigit c"
  unfolding py_int_def using signed_digits_has_digit [of "strip t" b] set_strip [of t] by blast

lemma battery_level_has_digit:
  assumes "battery_level d = Some b"
  shows "\<exists>v. d ''Battery'' = Some v \<and> (\<exists>c \<in> set v. isdigit c)"
proof -
  from assms obtain v where v: "d ''Battery'' = Some v"
    and p: "py_int (strip (replace_empty ''%'' v)) = Some b"
    by (auto simp: battery_level_def Let_def split: option.splits if_splits)
  from py_int_has_digit [OF p] obtain c where "c \<in> set (strip (replace_empty ''%'' v))" "isdigit c"
    by blast
  then have "c \<in> set v" using set_strip set_replace_empty by blast
  with v \<open>isdigit c\<close> show ?thesis by blast
qed

lemma check_node_health_battery_status:
  "battery_status (snd (check_node_health thr now s n d)) =
     (case battery_level d of None \<Rightarrow> battery_status s | Some b \<Rightarrow> (battery_status s)(n \<mapsto> b))"
proof (cases "d = Map.empty")
  case True
  then show ?thesis by (simp add: check_node_health_absent battery_level_empty)
next
  case False
  then show ?thesis
    by (simp add: check_node_health_present Let_def check_snr_status check_battery_status
        cong: option.case_cong)
qed

lemma check_node_health_alert_count_snr:
  "alert_count (snd (check_node_health thr now s n d)) (snr_key n) =
     (if (\<exists>x. WEAK_SIGNAL n x \<in> set (fst (check_node_health thr now s n d)))
      then Some now else alert_count s (snr_key n))"
proof (cases "d = Map.empty")
  case True
  then show ?thesis by (simp add: check_node_health_absent)
next
  case False
  have mf: "may_fire (snd (check_battery thr now (last_seen_update f s) n d))
              (snr_key n) now = may_fire s (snr_key n) now" for f
    using keys_differ [of n]
    by (simp add: may_fire_def check_battery_alert_count)
  have ex: "(\<exists>x. WEAK_SIGNAL n x \<in> set (fst (check_node_health thr now s n d))) \<longleftrightarrow>
            fst (check_snr now (snd (check_battery thr now
                (s\<lparr>last_seen := (last_seen s)(n \<mapsto> now)\<rparr>) n d)) n d) \<noteq> []"
    using False
    by (auto simp: check_node_health_alerts check_snr_alerts mf
        split: option.splits if_splits)
  show ?thesis unfolding ex using False keys_differ [of n]
    by (simp add: check_node_health_present Let_def check_snr_alert_count
        check_battery_alert_count)
qed

text \<open>
  C6, as claimed: a battery value is absent or an integer between 0 and 100. The code checks no
  range: the text 150 percent gives the level 150, and the call stores it.
\<close>

theorem battery_out_of_range_counterexample:
  "battery_level [''Battery'' \<mapsto> ''150%''] = Some 150 \<and>
   battery_status (snd (check_node_health BATTERY_THRESHOLD 0 init_monitor ''!abc123''
       [''Battery'' \<mapsto> ''150%''])) ''!abc123'' = Some 150"
proof -
  have lvl: "battery_level [''Battery'' \<mapsto> ''150%''] = Some 150"
    by (simp add: battery_level_def py_eval)
  show ?thesis
    by (simp add: check_node_health_battery_status lvl)
qed

text \<open>
  C6, amended. The battery level is absent or the integer that \<^verbatim>\<open>int\<close> reads from the
  Battery text, whatever its range (a negative level included). When the text does not parse,
  the level is absent: the call returns, produces no low-battery alert and writes neither
  \<open>battery_status\<close> nor the node's battery entry of \<open>alert_count\<close>, so no default value
  appears; a level that is present is stored as it is and comes from a text with a decimal
  digit. When the SNR text does not parse, no weak-signal alert is produced and the node's SNR
  entry is not written. The texts \<^verbatim>\<open>N/A%\<close> and \<^verbatim>\<open>N/AdB\<close> give absent values.
\<close>

theorem derived_values_absent_or_parsed:
  "(battery_level d = None \<longrightarrow>
      (\<forall>b. BATTERY_LOW n b \<notin> set (fst (check_node_health thr now s n d))) \<and>
      battery_status (snd (check_node_health thr now s n d)) = battery_status s \<and>
      alert_count (snd (check_node_health thr now s n d)) (battery_key n) =
        alert_count s (battery_key n)) \<and>
   (battery_level d = Some b \<longrightarrow>
      battery_status (snd (check_node_health thr now s n d)) n = Some b \<and>
      (\<exists>v. d ''Battery'' = Some v \<and> (\<exists>c \<in> set v. isdigit c))) \<and>
   (snr_value d = None \<longrightarrow>
      (\<forall>x. WEAK_SIGNAL n x \<notin> set (fst (check_node_health thr now s n d))) \<and>
      alert_count (snd (check_node_health thr now s n d)) (snr_key n) =
        alert_count s (snr_key n)) \<and>
   battery_level [''Battery'' \<mapsto> ''N/A%''] = None \<and>
   battery_level [''Battery'' \<mapsto> ''-5%''] = Some (- 5) \<and>
   snr_value [''SNR'' \<mapsto> ''N/AdB''] = None"
proof (intro conjI impI)
  assume a: "battery_level d = None"
  show "\<forall>b. BATTERY_LOW n b \<notin> set (fst (check_node_health thr now s n d))"
    using a by (auto simp: check_node_health_alerts split: option.splits if_splits)
  then show "alert_count (snd (check_node_health thr now s n d)) (battery_key n) =
        alert_count s (battery_key n)"
    by (simp add: check_node_health_alert_count_battery)
  show "battery_status (snd (check_node_health thr now s n d)) = battery_status s"
    using a by (simp add: check_node_health_battery_status)
next
  assume a: "battery_level d = Some b"
  show "battery_status (snd (check_node_health thr now s n d)) n = Some b"
    using a by (simp add: check_node_health_battery_status)
  show "\<exists>v. d ''Battery'' = Some v \<and> (\<exists>c \<in> set v. isdigit c)"
    using a by (rule battery_level_has_digit)
next
  assume a: "snr_value d = None"
  show "\<forall>x. WEAK_SIGNAL n x \<notin> set (fst (check_node_health thr now s n d))"
    using a by (auto simp: check_node_health_alerts split: option.splits if_splits)
  then show "alert_count (snd (check_node_health thr now s n d)) (snr_key n) =
        alert_count s (snr_key n)"
    by (simp add: check_node_health_alert_count_snr)
next
  show "battery_level [''Battery'' \<mapsto> ''N/A%''] = None"
    by (simp add: battery_level_def py_eval)
  show "battery_level [''Battery'' \<mapsto> ''-5%''] = Some (- 5)"
    by (simp add: battery_level_def py_eval)
  show "snr_value [''SNR'' \<mapsto> ''N/AdB''] = None"
    by (simp add: snr_value_def py_eval)
qed

theorem derived_values_absent_or_parsed_witness:
  "battery_status (snd (check_node_health 20 0 init_monitor ''!a'' [''Battery'' \<mapsto> ''N/A%''])) =
     battery_status init_monitor \<and>
   battery_status (snd (check_node_health 20 0 init_monitor ''!a'' [''Battery'' \<mapsto> ''-5%'',
     ''SNR'' \<mapsto> ''N/AdB''])) ''!a'' = Some (- 5) \<and>
   alert_count (snd (check_node_health 20 0 init_monitor ''!a'' [''Battery'' \<mapsto> ''-5%'',
     ''SNR'' \<mapsto> ''N/AdB''])) (snr_key ''!a'') = alert_count init_monitor (snr_key ''!a'')"
proof -
  have l1: "battery_level [''Battery'' \<mapsto> ''N/A%''] = None"
    by (simp add: battery_level_def py_eval)
  have l2: "battery_level [''Battery'' \<mapsto> ''-5%'', ''SNR'' \<mapsto> ''N/AdB''] = Some (- 5)"
    by (simp add: battery_level_def py_eval)
  have l3: "snr_value [''Battery'' \<mapsto> ''-5%'', ''SNR'' \<mapsto> ''N/AdB''] = None"
    by (simp add: snr_value_def py_eval)
  show ?thesis
    using derived_values_absent_or_parsed [of "[''Battery'' \<mapsto> ''N/A%'']" "''!a''" 20 0 init_monitor 0]
      derived_values_absent_or_parsed [of "[''Battery'' \<mapsto> ''-5%'', ''SNR'' \<mapsto> ''N/AdB'']"
        "''!a''" 20 0 init_monitor "- 5"]
    by (simp add: l1 l2 l3)
qed

section \<open>The block of one node\<close>

lemma unpack2_split_colon:
  "CHR '':'' \<in> set t \<Longrightarrow> unpack2 (split_colon t) = Inr (before_colon t, after_colon t)"
  by (simp add: split_colon_def before_colon_def after_colon_def)

lemma dropWhile_keeps: "x \<in> set xs \<Longrightarrow> \<not> P x \<Longrightarrow> x \<in> set (dropWhile P xs)"
  by (induction xs) auto

lemma strip_keeps: "c \<in> set t \<Longrightarrow> \<not> isspace c \<Longrightarrow> c \<in> set (strip t)"
  unfolding strip_def by (simp add: dropWhile_keeps)

lemma colon_not_space: "\<not> isspace CHR '':''"
  by (simp add: isspace_def)

lemma colon_in_strip: "CHR '':'' \<in> set t \<Longrightarrow> CHR '':'' \<in> set (strip t)"
  by (rule strip_keeps [OF _ colon_not_space])

lemma scan_node_in_target:
  "scan_node node_id True node_data ls =
     Inr (collect node_id node_data
            (takeWhile (\<lambda>l. strip l = node_id \<or> \<not> startswith l ''!'') ls))"
proof (induction ls arbitrary: node_data)
  case Nil
  then show ?case by (simp add: collect_def)
next
  case (Cons l ls)
  show ?case
    using Cons.IH
    by (simp add: collect_def unpack2_split_colon del: startswith.simps)
qed

lemma scan_node_searching:
  "scan_node node_id False Map.empty ls = Inr (collect node_id Map.empty (target_block node_id ls))"
proof (induction ls)
  case Nil
  then show ?case by (simp add: collect_def target_block_def after_target_def)
next
  case (Cons l ls)
  show ?case
  proof (cases "strip l = node_id")
    case True
    then show ?thesis
      by (simp add: scan_node_in_target target_block_def after_target_def del: startswith.simps)
  next
    case False
    then show ?thesis using Cons.IH
      by (simp add: target_block_def after_target_def del: startswith.simps)
  qed
qed

lemma target_block_absent:
  assumes "\<forall>l \<in> set ls. strip l \<noteq> node_id"
  shows "target_block node_id ls = []"
proof -
  have e: "dropWhile (\<lambda>l. strip l \<noteq> node_id) ls = []"
    using assms by simp
  show ?thesis
    unfolding target_block_def after_target_def e by simp
qed

text \<open>
  A text without a line equal to the target, once trimmed, gives the empty mapping.
\<close>

lemma parse_node_data_absent:
  assumes "\<forall>l \<in> set (split_lines output). strip l \<noteq> node_id"
  shows "parse_node_data output node_id = Inr Map.empty"
  using assms
  by (simp add: parse_node_data_def scan_node_searching target_block_absent collect_def)

text \<open>
  When the target does not occur again after its first line, the loop stops at the next line
  that begins with an exclamation mark, and the mapping holds the lines with a colon between
  the two.
\<close>

lemma parse_node_data_single_header:
  assumes "\<forall>l \<in> set (after_target node_id (split_lines output)). strip l \<noteq> node_id"
  shows "parse_node_data output node_id =
           Inr (collect node_id Map.empty (spec_block node_id (split_lines output)))"
proof -
  have "takeWhile (\<lambda>l. strip l = node_id \<or> \<not> startswith l ''!'')
          (after_target node_id (split_lines output)) =
        takeWhile (\<lambda>l. \<not> startswith l ''!'') (after_target node_id (split_lines output))"
    using assms by (intro takeWhile_cong) auto
  then have "target_block node_id (split_lines output) = spec_block node_id (split_lines output)"
    by (simp add: target_block_def spec_block_def)
  then show ?thesis
    by (simp add: parse_node_data_def scan_node_searching)
qed

text \<open>
  C5. The mapping is to hold only the fields between the target header and the next header
  line. The loop tests for the target before it tests for the next header, so a target header
  that occurs again does not reach the \<^verbatim>\<open>break\<close>: in the text below the field \<open>y\<close> stands
  after the second header line and is returned with \<open>x\<close>, while the lines up to the next
  header line hold \<open>x\<close> alone. \<open>parse_nodes\<close> opens a new block at that same line.
\<close>

theorem parse_node_data_repeated_header:
  "parse_node_data (''!a'' @ [CHR 0x0A] @ ''  x: 1'' @ [CHR 0x0A] @ ''!a'' @ [CHR 0x0A] @ ''  y: 2'') ''!a''
     = Inr [''x'' \<mapsto> ''1'', ''y'' \<mapsto> ''2''] \<and>
   spec_block ''!a'' (split_lines (''!a'' @ [CHR 0x0A] @ ''  x: 1'' @ [CHR 0x0A] @ ''!a'' @ [CHR 0x0A] @ ''  y: 2''))
     = [''  x: 1''] \<and>
   parse_nodes (''!a'' @ [CHR 0x0A] @ ''  x: 1'' @ [CHR 0x0A] @ ''!a'' @ [CHR 0x0A] @ ''  y: 2'')
     = Inr [''!a'' \<mapsto> [''y'' \<mapsto> ''2'']]"
  by (simp add: parse_node_data_def parse_nodes_def spec_block_def after_target_def py_eval)

section \<open>The parser of the node table\<close>

lemma startswith_bang_nonempty: "startswith t ''!'' \<Longrightarrow> t \<noteq> []"
  by (cases t) auto

lemma rule_line_known:
  assumes "current_known (nodes, current)"
  shows "current_known (rule_line (nodes, current) line)"
proof (cases "is_header line")
  case True
  then have "strip line \<noteq> []"
    by (simp add: is_header_def startswith_bang_nonempty)
  with True show ?thesis by (simp add: current_known_def)
next
  case False
  then show ?thesis using assms
    by (auto simp: current_known_def store_field_def split: option.splits)
qed

lemma rule_line_dom:
  assumes "current_known (nodes, current)"
  shows "dom (fst (rule_line (nodes, current) line)) =
           dom nodes \<union> (if is_header line then {strip line} else {})"
  using assms
  by (auto simp: current_known_def store_field_def split: option.splits if_splits)

lemma foldl_rule_line_dom:
  "current_known p \<Longrightarrow>
   dom (fst (foldl rule_line p ls)) = dom (fst p) \<union> set (map strip (filter is_header ls))"
proof (induction ls arbitrary: p)
  case Nil
  then show ?case by simp
next
  case (Cons l ls)
  obtain nodes current where p: "p = (nodes, current)" by (cases p)
  have k: "current_known (rule_line p l)"
    using Cons.prems unfolding p by (rule rule_line_known)
  have d: "dom (fst (rule_line p l)) = dom (fst p) \<union> (if is_header l then {strip l} else {})"
    using rule_line_dom [of nodes current l] Cons.prems unfolding p by simp
  show ?case
    using Cons.IH [OF k] d by (auto simp del: rule_line.simps)
qed

lemma parse_lines_step:
  assumes "current_known (nodes, current)"
  shows "parse_lines nodes current (line # rest) =
           parse_lines (fst (rule_line (nodes, current) line))
             (snd (rule_line (nodes, current) line)) rest"
proof (cases "startswith line ''  ''")
  case two: True
  then have nh: "\<not> is_header line" by (simp add: is_header_def)
  show ?thesis
  proof (cases "CHR '':'' \<in> set line")
    case colon: True
    have u: "unpack2 (split_colon (strip line)) =
               Inr (before_colon (strip line), after_colon (strip line))"
      using colon by (simp add: unpack2_split_colon colon_in_strip)
    show ?thesis
    proof (cases current)
      case None
      then show ?thesis using two colon u nh
        by (simp del: startswith.simps)
    next
      case (Some c)
      then obtain f where f: "nodes c = Some f" and c: "c \<noteq> []"
        using assms by (auto simp: current_known_def)
      show ?thesis using two colon u nh Some f c
        by (simp add: is_field_def store_field_def del: startswith.simps)
    qed
  next
    case False
    then show ?thesis using two nh
      by (simp add: is_field_def del: startswith.simps)
  qed
next
  case False
  then have nf: "\<not> is_field line" by (simp add: is_field_def)
  show ?thesis using False nf
    by (simp add: is_header_def Let_def del: startswith.simps)
qed

lemma parse_lines_rules:
  "current_known (nodes, current) \<Longrightarrow>
   parse_lines nodes current ls = Inr (fst (foldl rule_line (nodes, current) ls))"
proof (induction ls arbitrary: nodes current)
  case Nil
  then show ?case by simp
next
  case (Cons l ls)
  obtain nodes' current' where r: "rule_line (nodes, current) l = (nodes', current')"
    by (cases "rule_line (nodes, current) l")
  have k: "current_known (nodes', current')"
    using rule_line_known [OF Cons.prems, of l] r by simp
  show ?case
    using parse_lines_step [OF Cons.prems, of l ls] Cons.IH [OF k] r
    by (simp del: parse_lines.simps rule_line.simps)
qed

lemma start_known: "current_known (Map.empty, None)"
  by (simp add: current_known_def)

text \<open>
  C4, as claimed: any line with leading whitespace and a colon is a field line. The code asks
  for two leading spaces: the field line below, indented by one space, is stored by the rules
  of the specification and ignored by \<open>parse_nodes\<close>.
\<close>

theorem parse_nodes_rules_counterexample:
  "parse_nodes (''!abc'' @ [CHR 0x0A] @ '' Battery: 50%'') = Inr [''!abc'' \<mapsto> Map.empty] \<and>
   spec_parse (''!abc'' @ [CHR 0x0A] @ '' Battery: 50%'') =
     [''!abc'' \<mapsto> [''Battery'' \<mapsto> ''50%'']]"
  by (simp add: parse_nodes_def spec_parse_def spec_header_def spec_field_def leading_space_def
      store_field_def before_colon_def after_colon_def py_eval)

text \<open>
  C4, amended. \<open>parse_nodes\<close> never raises and treats every line by these rules: a line that
  does not begin with two spaces is a header when its trimmed text begins with an exclamation
  mark, and then opens that node with an empty field map; a line that begins with two spaces
  and contains a colon is a field line when its trimmed text has something on both sides of
  its first colon; it is split at that colon only, both sides are trimmed and stored for the
  current node, a later value replacing an earlier one; a field line before any header is
  dropped; every other line is ignored.
\<close>

theorem parse_nodes_rules:
  "parse_nodes text = Inr (rule_parse text)"
  unfolding parse_nodes_def rule_parse_def
  by (rule parse_lines_rules [OF start_known])

text \<open>
  C9. \<open>parse_nodes\<close> returns a mapping for every text: neither the unpacking of the split
  field line nor the lookup of the current node raises.
\<close>

theorem parse_nodes_total:
  "\<exists>nodes. parse_nodes text = Inr nodes"
  unfolding parse_nodes_def
  using parse_lines_rules [OF start_known] by blast

text \<open>
  C8, as claimed: a text with N headers gives N entries. A text of two header lines with the
  same string, and nothing else, gives one entry.
\<close>

theorem parse_nodes_duplicate_counterexample:
  "length (filter spec_header (split_lines (''!a'' @ [CHR 0x0A] @ ''!a''))) = 2 \<and>
   parse_nodes (''!a'' @ [CHR 0x0A] @ ''!a'') = Inr [''!a'' \<mapsto> Map.empty] \<and>
   card (dom [''!a'' \<mapsto> (Map.empty :: fields)]) = 1"
  by (simp add: parse_nodes_def spec_header_def leading_space_def py_eval)

text \<open>
  C8, amended. For every text, the keys of the mapping that \<open>parse_nodes\<close> returns are
  exactly the header strings of the text, so that it has one entry for each different header
  string; when the N header strings differ from one another it has exactly N entries.
\<close>

theorem parse_nodes_entries:
  "\<exists>nodes. parse_nodes text = Inr nodes \<and>
     dom nodes = set (headers text) \<and>
     (distinct (headers text) \<longrightarrow> card (dom nodes) = length (headers text))"
proof -
  have p: "parse_nodes text = Inr (rule_parse text)"
    unfolding parse_nodes_def rule_parse_def
    by (rule parse_lines_rules [OF start_known])
  have d: "dom (rule_parse text) = set (headers text)"
    unfolding rule_parse_def headers_def
    using foldl_rule_line_dom [OF start_known, of "split_lines text"] by simp
  show ?thesis
    using p d by (auto simp: distinct_card)
qed

theorem parse_nodes_entries_witness:
  "parse_nodes (''!a'' @ [CHR 0x0A] @ ''  x: 1'' @ [CHR 0x0A] @ ''!b'') =
     Inr [''!a'' \<mapsto> [''x'' \<mapsto> ''1''], ''!b'' \<mapsto> Map.empty] \<and>
   card (dom [''!a'' \<mapsto> [''x'' \<mapsto> ''1''], ''!b'' \<mapsto> (Map.empty :: fields)]) =
     length (headers (''!a'' @ [CHR 0x0A] @ ''  x: 1'' @ [CHR 0x0A] @ ''!b''))"
proof -
  have h: "headers (''!a'' @ [CHR 0x0A] @ ''  x: 1'' @ [CHR 0x0A] @ ''!b'') = [''!a'', ''!b'']"
    by (simp add: headers_def is_header_def py_eval)
  have v: "parse_nodes (''!a'' @ [CHR 0x0A] @ ''  x: 1'' @ [CHR 0x0A] @ ''!b'') =
     Inr [''!a'' \<mapsto> [''x'' \<mapsto> ''1''], ''!b'' \<mapsto> Map.empty]"
    by (simp add: parse_nodes_def py_eval)
  show ?thesis
    using parse_nodes_entries [of "''!a'' @ [CHR 0x0A] @ ''  x: 1'' @ [CHR 0x0A] @ ''!b''"]
    unfolding h v by auto
qed

end
